theory Spec2Isabelle
  imports Main "HOL-Library.Word" "HOL-Library.List_Lexorder" "HOL-Library.Multiset"
begin

unbundle bit_operations_syntax

section \<open>Bytes, errors and the value types of the sampler\<close>

type_synonym byte = "8 word"
type_synonym bytes = "byte list"

text \<open>
  Go's \<^verbatim>\<open>bytes.Compare\<close> (standard library): lexicographic comparison of two byte
  slices, bytes read as unsigned numbers, a proper prefix being smaller; the result is
  \<open>-1\<close>, \<open>0\<close> or \<open>1\<close>.
\<close>

fun bytes_Compare :: "bytes \<Rightarrow> bytes \<Rightarrow> int" where
  "bytes_Compare [] [] = 0"
| "bytes_Compare [] (y # ys) = - 1"
| "bytes_Compare (x # xs) [] = 1"
| "bytes_Compare (x # xs) (y # ys) =
     (if x < y then - 1 else if y < x then 1 else bytes_Compare xs ys)"

text \<open>\<^verbatim>\<open>func le(a, b []byte) bool { return bytes.Compare(a, b) == -1 }\<close>\<close>

definition le :: "bytes \<Rightarrow> bytes \<Rightarrow> bool" where
  "le a b = (bytes_Compare a b = - 1)"

text \<open>
  Error values. \<open>ctx_Err\<close> is what \<^verbatim>\<open>ctx.Err()\<close> returns once the context is done,
  \<open>Errorf s e\<close> is \<^verbatim>\<open>fmt.Errorf(s + ": %w", e)\<close>, \<open>ErrOther\<close> is any error value of an
  external collaborator, and \<open>Panic\<close> is a run-time panic of the Go program.
\<close>

datatype error =
    ErrNotFound
  | ErrBucketFull
  | ErrInvalidBatchSignature
  | errDbClosed
  | errSamplerStopped
  | ctx_Err
  | ErrOther string
  | Errorf string error
  | Panic string

text \<open>\<^verbatim>\<open>errors.Is(err, target)\<close> for the sentinel errors above: it unwraps \<^verbatim>\<open>%w\<close>.\<close>

fun errors_Is :: "error \<Rightarrow> error \<Rightarrow> bool" where
  "errors_Is (Errorf s e) target = (Errorf s e = target \<or> errors_Is e target)"
| "errors_Is e target = (e = target)"

text \<open>The fields of \<^verbatim>\<open>shed.Item\<close> that the sampler reads.\<close>

record shed_Item =
  Address :: bytes
  Data :: bytes
  BatchID :: bytes
  Index :: bytes
  Timestamp :: bytes
  Sig :: bytes

text \<open>\<^verbatim>\<open>storage.SampleEntry\<close> and \<^verbatim>\<open>storage.Sample\<close>.\<close>

record SampleEntry =
  TransformedAddress :: bytes
  ChunkItem :: shed_Item

record Sample =
  Items :: "SampleEntry list"
  SampleContent :: bytes
  Hash :: bytes

text \<open>\<^verbatim>\<open>swarm.NewChunk(address, data)\<close> and \<^verbatim>\<open>postage.NewStamp(batchID, index, timestamp, sig)\<close>.\<close>

record Chunk =
  chunk_Address :: bytes
  chunk_Data :: bytes

record Stamp =
  stamp_BatchID :: bytes
  stamp_Index :: bytes
  stamp_Timestamp :: bytes
  stamp_Sig :: bytes

definition NewChunk :: "bytes \<Rightarrow> bytes \<Rightarrow> Chunk" where
  "NewChunk a d = \<lparr>chunk_Address = a, chunk_Data = d\<rparr>"

definition NewStamp :: "bytes \<Rightarrow> bytes \<Rightarrow> bytes \<Rightarrow> bytes \<Rightarrow> Stamp" where
  "NewStamp b i t s = \<lparr>stamp_BatchID = b, stamp_Index = i, stamp_Timestamp = t, stamp_Sig = s\<rparr>"

definition sampleSize :: nat where
  "sampleSize = 16"

section \<open>The collaborators of the sampler\<close>

text \<open>
  What \<^verbatim>\<open>ReserveSample\<close> calls outside its own file, as the fields of one record:
  \<^item> \<open>pullIndex_Iterate r\<close>: the addresses \<^verbatim>\<open>db.pullIndex.Iterate\<close> visits, in order, when
    started from \<^verbatim>\<open>db.addressInBin(r)\<close>;
  \<^item> \<open>get\<close>: \<^verbatim>\<open>db.get(ctx, storage.ModeGetSync, addr)\<close>;
  \<^item> \<open>TrHasher anchor data\<close>: \<^verbatim>\<open>Write(data)\<close> then \<^verbatim>\<open>Sum(nil)\<close> on \<^verbatim>\<open>bmt.NewTrHasher(anchor)\<close>
    (the hasher is reset after every chunk, so each sum depends on that chunk alone);
  \<^item> \<open>MarshalBinary\<close>: \<^verbatim>\<open>stamp.MarshalBinary()\<close>;
  \<^item> \<open>validStamp\<close>: \<^verbatim>\<open>db.validStamp(chunk, stampData)\<close>, \<open>None\<close> being the nil error;
  \<^item> \<open>validChunkFn\<close>: the package-level variable \<^verbatim>\<open>var validChunkFn func(swarm.Chunk) bool\<close>,
    \<open>None\<close> being its zero value \<^verbatim>\<open>nil\<close>;
  \<^item> \<open>bmtHash data\<close>: the binary Merkle tree hash of a chunk's data (span, then payload),
    which \<^verbatim>\<open>cac.New\<close> takes as the chunk's address.
\<close>

record env =
  pullIndex_Iterate :: "byte \<Rightarrow> bytes list"
  get :: "bytes \<Rightarrow> error + shed_Item"
  TrHasher :: "bytes \<Rightarrow> bytes \<Rightarrow> error + bytes"
  MarshalBinary :: "Stamp \<Rightarrow> error + bytes"
  validStamp :: "Chunk \<Rightarrow> bytes \<Rightarrow> error option"
  validChunkFn :: "(Chunk \<Rightarrow> bool) option"
  bmtHash :: "bytes \<Rightarrow> bytes"

section \<open>Stage C: the sorted buffer\<close>

text \<open>
  The loop of the closure \<^verbatim>\<open>insert\<close>: the first index \<open>i\<close> with
  \<^verbatim>\<open>le(item.TransformedAddress.Bytes(), sItem.TransformedAddress.Bytes())\<close>, if there is one.
\<close>

fun insert_index :: "bytes \<Rightarrow> SampleEntry list \<Rightarrow> nat option" where
  "insert_index t [] = None"
| "insert_index t (sItem # rest) =
     (if le t (TransformedAddress sItem) then Some 0
      else map_option Suc (insert_index t rest))"

text \<open>
  The closure \<^verbatim>\<open>insert\<close>. At the index found,
  \<^verbatim>\<open>sampleItems = append(sampleItems[:i+1], sampleItems[i:]...)\<close> and then
  \<^verbatim>\<open>sampleItems[i] = item\<close>; after the loop the slice is cut to \<open>sampleSize\<close>, and an
  item that was not added is appended while there is room.
\<close>

definition insert_sample :: "SampleEntry list \<Rightarrow> SampleEntry \<Rightarrow> SampleEntry list" where
  "insert_sample sampleItems item =
     (let (sampleItems1, added) =
            (case insert_index (TransformedAddress item) sampleItems of
               Some i \<Rightarrow> ((take (i + 1) sampleItems @ drop i sampleItems)[i := item], True)
             | None \<Rightarrow> (sampleItems, False));
          sampleItems2 =
            (if length sampleItems1 > sampleSize then take sampleSize sampleItems1
             else sampleItems1)
      in if length sampleItems2 < sampleSize \<and> \<not> added then sampleItems2 @ [item]
         else sampleItems2)"

text \<open>
  One round of the loop \<^verbatim>\<open>for item := range sampleItemChan\<close>. The call of a nil
  \<^verbatim>\<open>validChunkFn\<close> panics; a stamp that does not marshal or does not validate, and a
  chunk that is not valid, leave the buffer as it is.
\<close>

definition stageC_step :: "env \<Rightarrow> SampleEntry list \<Rightarrow> SampleEntry \<Rightarrow> error + SampleEntry list" where
  "stageC_step e sampleItems item =
     (let currentMaxAddr =
            (if length sampleItems > 0 then TransformedAddress (last sampleItems)
             else replicate 32 0)
      in if le (TransformedAddress item) currentMaxAddr \<or> length sampleItems < sampleSize then
           (let chunk = NewChunk (Address (ChunkItem item)) (Data (ChunkItem item));
                stamp = NewStamp (BatchID (ChunkItem item)) (Index (ChunkItem item))
                          (Timestamp (ChunkItem item)) (Sig (ChunkItem item))
            in case MarshalBinary e stamp of
                 Inl err \<Rightarrow> Inr sampleItems
               | Inr stampData \<Rightarrow>
                   (case validStamp e chunk stampData of
                      None \<Rightarrow>
                        (case validChunkFn e of
                           None \<Rightarrow> Inl (Panic ''nil func validChunkFn'')
                         | Some f \<Rightarrow>
                             if \<not> f chunk then Inr sampleItems
                             else Inr (insert_sample sampleItems item))
                    | Some err \<Rightarrow> Inr sampleItems))
         else Inr sampleItems)"

text \<open>The whole loop, over the entries in the order the channel delivers them.\<close>

fun stageC :: "env \<Rightarrow> SampleEntry list \<Rightarrow> SampleEntry list \<Rightarrow> error + SampleEntry list" where
  "stageC e sampleItems [] = Inr sampleItems"
| "stageC e sampleItems (item # items) =
     (case stageC_step e sampleItems item of
        Inl err \<Rightarrow> Inl err
      | Inr sampleItems' \<Rightarrow> stageC e sampleItems' items)"

section \<open>Stages A and B: iterate, fetch and transform\<close>

text \<open>
  \<^verbatim>\<open>binary.BigEndian.Uint64(b)\<close> reads the first eight bytes; on a shorter slice it
  panics (index out of range), which is \<open>None\<close> here.
\<close>

definition BigEndian_Uint64 :: "bytes \<Rightarrow> 64 word option" where
  "BigEndian_Uint64 b =
     (if length b < 8 then None
      else Some (foldl (\<lambda>acc x. push_bit 8 acc OR ucast x) 0 (take 8 b)))"

text \<open>
  The body of a Stage B worker's loop for one address: a chunk that cannot be fetched and a
  chunk stamped after the consensus time are skipped (\<open>Inr None\<close>); an error of the
  keyed hasher ends the worker.
\<close>

definition stageB_item :: "env \<Rightarrow> bytes \<Rightarrow> 64 word \<Rightarrow> bytes \<Rightarrow> error + SampleEntry option" where
  "stageB_item e anchor consensusTime addr =
     (case get e addr of
        Inl err \<Rightarrow> Inr None
      | Inr chItem \<Rightarrow>
          (case BigEndian_Uint64 (Timestamp chItem) of
             None \<Rightarrow> Inl (Panic ''index out of range'')
           | Some ts \<Rightarrow>
               if ts > consensusTime then Inr None
               else (case TrHasher e anchor (Data chItem) of
                       Inl err \<Rightarrow> Inl err
                     | Inr taddr \<Rightarrow>
                         Inr (Some \<lparr>TransformedAddress = taddr, ChunkItem = chItem\<rparr>))))"

text \<open>
  The entries the workers emit for the addresses of Stage A, listed in iteration order,
  and the error that ended a worker, if any. Which of the six workers handles an address,
  and so the order in which entries reach Stage C, is the scheduler's choice: see
  \<open>deliver\<close> below.
\<close>

fun stageB :: "env \<Rightarrow> bytes \<Rightarrow> 64 word \<Rightarrow> bytes list \<Rightarrow> SampleEntry list \<times> error option" where
  "stageB e anchor consensusTime [] = ([], None)"
| "stageB e anchor consensusTime (addr # addrs) =
     (case stageB_item e anchor consensusTime addr of
        Inl err \<Rightarrow> ([], Some err)
      | Inr None \<Rightarrow> stageB e anchor consensusTime addrs
      | Inr (Some entry) \<Rightarrow>
          (let (entries, r) = stageB e anchor consensusTime addrs in (entry # entries, r)))"

text \<open>
  The order of arrival on \<^verbatim>\<open>sampleItemChan\<close>. The workers run concurrently, so the
  entries reach Stage C in an order the scheduler picks: at every step the choice \<open>k\<close>
  selects which of the pending entries is received next. Every list of choices gives an
  order, and every order is given by some list of choices.
\<close>

function deliver :: "nat list \<Rightarrow> 'a list \<Rightarrow> 'a list" where
  "deliver ks [] = []"
| "deliver [] (x # xs) = x # xs"
| "deliver (k # ks) (x # xs) =
     (let i = k mod length (x # xs)
      in (x # xs) ! i # deliver ks (take i (x # xs) @ drop (Suc i) (x # xs)))"
  by pat_completeness auto
termination
  by (relation "measure (\<lambda>(ks, xs). length xs)") (auto simp: min_def)

text \<open>
  What the scheduler and the outside world decide in one run: the order of arrival at
  Stage C, and whether a stage selected a termination signal (context cancelled, database
  closed, sampler stopped); then \<open>interrupt\<close> holds the number of entries Stage C had
  received by then and the error that stage returned to the error group.
\<close>

record run =
  sched :: "nat list"
  interrupt :: "(nat \<times> error) option"

section \<open>Hash assembly and the whole sampler\<close>

text \<open>\<^verbatim>\<open>binary.LittleEndian.PutUint64\<close>: the eight bytes of a value, lowest first.\<close>

definition LittleEndian_PutUint64 :: "64 word \<Rightarrow> bytes" where
  "LittleEndian_PutUint64 v = map (\<lambda>i. ucast (drop_bit (8 * i) v)) [0..<8]"

text \<open>
  Modelled from the spec: \<^verbatim>\<open>cac.New\<close> is not among the source files. Section 4.3:
  \<^verbatim>\<open>cac.new(payload)\<close> prepends an 8-byte little-endian span of \<^verbatim>\<open>len(payload)\<close>, checks
  that the data has at least 8 and at most 4096 + 8 bytes, and computes the address as
  the binary Merkle tree hash of the data.
\<close>

definition cac_New :: "env \<Rightarrow> bytes \<Rightarrow> error + Chunk" where
  "cac_New e payload =
     (let data = LittleEndian_PutUint64 (of_nat (length payload)) @ payload
      in if length data < 8 \<or> length data > 4096 + 8 then Inl (ErrOther ''cac: invalid data length'')
         else Inr (NewChunk (bmtHash e data) data))"

text \<open>
  The loop \<^verbatim>\<open>for _, s := range sampleItems\<close> that appends the chunk address and then the
  transformed address of every item to \<^verbatim>\<open>sampleContent\<close>.
\<close>

fun sampleContent_loop :: "bytes \<Rightarrow> SampleEntry list \<Rightarrow> bytes" where
  "sampleContent_loop sampleContent [] = sampleContent"
| "sampleContent_loop sampleContent (s # ss) =
     sampleContent_loop ((sampleContent @ Address (ChunkItem s)) @ TransformedAddress s) ss"

text \<open>
  \<^verbatim>\<open>ReserveSample\<close>. A panic of a worker ends the program; otherwise Stage C runs over
  what it receives, \<^verbatim>\<open>g.Wait()\<close> reports the error of the stages, and the sample is
  assembled from the buffer.
\<close>

definition ReserveSample :: "env \<Rightarrow> bytes \<Rightarrow> byte \<Rightarrow> 64 word \<Rightarrow> run \<Rightarrow> error + Sample" where
  "ReserveSample e anchor storageRadius consensusTime r =
     (let (entries, errB) = stageB e anchor consensusTime (pullIndex_Iterate e storageRadius);
          arrived = deliver (sched r) entries;
          received = (case interrupt r of None \<Rightarrow> arrived | Some (n, err) \<Rightarrow> take n arrived);
          g_Wait = (case errB of Some err \<Rightarrow> Some err | None \<Rightarrow> map_option snd (interrupt r))
      in case errB of
           Some (Panic p) \<Rightarrow> Inl (Panic p)
         | _ \<Rightarrow>
           (case stageC e [] received of
              Inl err \<Rightarrow> Inl err
            | Inr sampleItems \<Rightarrow>
                (case g_Wait of
                   Some err \<Rightarrow> Inl (Errorf ''sampler: failed creating sample'' err)
                 | None \<Rightarrow>
                     (let sampleContent = sampleContent_loop [] sampleItems
                      in case cac_New e sampleContent of
                           Inl err \<Rightarrow> Inl (Errorf ''sampler: failed creating sampleHash'' err)
                         | Inr sampleContentChunk \<Rightarrow>
                             Inr \<lparr>Items = sampleItems, SampleContent = sampleContent,
                                  Hash = chunk_Address sampleContentChunk\<rparr>))))"

section \<open>What the claims speak about\<close>

text \<open>
  The chunk and the stamp Stage C builds from an entry. An entry's stamp is accepted when
  it marshals and \<^verbatim>\<open>db.validStamp\<close> returns no error. An entry is eligible when its stamp
  is accepted and \<^verbatim>\<open>validChunkFn\<close> is set and accepts its chunk; it is rejected when its
  stamp is not accepted, or \<^verbatim>\<open>validChunkFn\<close> is set and refuses its chunk. (With a nil
  \<^verbatim>\<open>validChunkFn\<close> an entry with an accepted stamp is neither: the call panics.)
\<close>

definition chunk_of :: "SampleEntry \<Rightarrow> Chunk" where
  "chunk_of item = NewChunk (Address (ChunkItem item)) (Data (ChunkItem item))"

definition stamp_of :: "SampleEntry \<Rightarrow> Stamp" where
  "stamp_of item = NewStamp (BatchID (ChunkItem item)) (Index (ChunkItem item))
                     (Timestamp (ChunkItem item)) (Sig (ChunkItem item))"

definition stamp_ok :: "env \<Rightarrow> SampleEntry \<Rightarrow> bool" where
  "stamp_ok e item =
     (case MarshalBinary e (stamp_of item) of
        Inl err \<Rightarrow> False
      | Inr stampData \<Rightarrow> validStamp e (chunk_of item) stampData = None)"

definition eligible :: "env \<Rightarrow> SampleEntry \<Rightarrow> bool" where
  "eligible e item =
     (stamp_ok e item \<and> (case validChunkFn e of None \<Rightarrow> False | Some f \<Rightarrow> f (chunk_of item)))"

definition rejected :: "env \<Rightarrow> SampleEntry \<Rightarrow> bool" where
  "rejected e item =
     (\<not> stamp_ok e item \<or> (case validChunkFn e of None \<Rightarrow> False | Some f \<Rightarrow> \<not> f (chunk_of item)))"

text \<open>The entries Stage B emits in a run, and the error that ended a worker, if any.\<close>

definition entries_of :: "env \<Rightarrow> bytes \<Rightarrow> byte \<Rightarrow> 64 word \<Rightarrow> SampleEntry list" where
  "entries_of e anchor storageRadius consensusTime =
     fst (stageB e anchor consensusTime (pullIndex_Iterate e storageRadius))"

definition workers_error :: "env \<Rightarrow> bytes \<Rightarrow> byte \<Rightarrow> 64 word \<Rightarrow> error option" where
  "workers_error e anchor storageRadius consensusTime =
     snd (stageB e anchor consensusTime (pullIndex_Iterate e storageRadius))"

text \<open>The content of a sample as the spec writes it: address, then transformed address, per item.\<close>

definition content_of :: "SampleEntry list \<Rightarrow> bytes" where
  "content_of xs = concat (map (\<lambda>x. Address (ChunkItem x) @ TransformedAddress x) xs)"

text \<open>
  Insertion before the first entry with a strictly greater transformed address: the list
  function that the index arithmetic of \<open>insert_sample\<close> computes (used in proofs only).
\<close>

fun place :: "SampleEntry \<Rightarrow> SampleEntry list \<Rightarrow> SampleEntry list" where
  "place x [] = [x]"
| "place x (y # ys) =
     (if TransformedAddress x < TransformedAddress y then x # y # ys else y # place x ys)"

text \<open>
  The last part of \<^verbatim>\<open>ReserveSample\<close>, from the buffer to the sample, with the content
  written as in the spec (used in proofs only).
\<close>

definition assemble :: "env \<Rightarrow> SampleEntry list \<Rightarrow> error + Sample" where
  "assemble e xs =
     (case cac_New e (content_of xs) of
        Inl err \<Rightarrow> Inl (Errorf ''sampler: failed creating sampleHash'' err)
      | Inr c \<Rightarrow> Inr \<lparr>Items = xs, SampleContent = content_of xs, Hash = chunk_Address c\<rparr>)"

section \<open>The two \<^verbatim>\<open>select\<close> statements of the pipeline\<close>





section \<open>The stamper\<close>

text \<open>\<^verbatim>\<open>postage.StampItem\<close>, with the fields \<^verbatim>\<open>Stamp\<close> reads and writes.\<close>

record StampItem =
  item_BatchID :: bytes
  item_chunkAddress :: bytes
  item_BatchIndex :: bytes
  item_BatchTimestamp :: bytes

text \<open>
  Modelled from the spec: the store behind \<^verbatim>\<open>storage.Store\<close> is not among the source
  files. Section 3: a stamp item is stored under the key (batch id, chunk address) with the
  value (index, timestamp), at most one record per key. \<open>get_fault\<close> and \<open>put_fault\<close>
  are the errors of the storage engine itself, when it has one to report.
\<close>

record store =
  items :: "(bytes \<times> bytes) \<rightharpoonup> (bytes \<times> bytes)"
  get_fault :: "error option"
  put_fault :: "error option"

definition store_Get :: "store \<Rightarrow> StampItem \<Rightarrow> error + StampItem" where
  "store_Get s item =
     (case get_fault s of
        Some err \<Rightarrow> Inl err
      | None \<Rightarrow>
          (case items s (item_BatchID item, item_chunkAddress item) of
             None \<Rightarrow> Inl ErrNotFound
           | Some (i, t) \<Rightarrow> Inr (item\<lparr>item_BatchIndex := i, item_BatchTimestamp := t\<rparr>)))"

definition store_Put :: "store \<Rightarrow> StampItem \<Rightarrow> error + store" where
  "store_Put s item =
     (case put_fault s of
        Some err \<Rightarrow> Inl err
      | None \<Rightarrow>
          Inr (s\<lparr>items := (items s)((item_BatchID item, item_chunkAddress item) \<mapsto>
                              (item_BatchIndex item, item_BatchTimestamp item))\<rparr>))"

text \<open>The fields of \<^verbatim>\<open>StampIssuer\<close> that \<^verbatim>\<open>Stamp\<close> reads: \<^verbatim>\<open>data.BatchID\<close>, the bucket depth and the bucket counters.\<close>

record StampIssuer =
  data_BatchID :: bytes
  data_BucketDepth :: byte
  data_Buckets :: "32 word \<Rightarrow> 32 word"

text \<open>
  The functions of package \<^verbatim>\<open>postage\<close> and of the signer that the stampers call and that
  are not among the source files, as the fields of one record: \<^verbatim>\<open>ToBucket\<close>,
  \<^verbatim>\<open>indexToBytes\<close>, \<^verbatim>\<open>unixTime()\<close> (the clock, read at the call), \<^verbatim>\<open>st.issuer.increment\<close>
  (which returns its result and leaves the issuer in a new state), \<^verbatim>\<open>ToSignDigest\<close>,
  \<^verbatim>\<open>st.signer.Sign\<close>, \<^verbatim>\<open>RecoverBatchOwner\<close> and the \<^verbatim>\<open>String()\<close> of a stamp item.
\<close>

record postage =
  ToBucket :: "byte \<Rightarrow> bytes \<Rightarrow> 32 word"
  indexToBytes :: "32 word \<Rightarrow> 32 word \<Rightarrow> bytes"
  unixTime :: bytes
  increment :: "StampIssuer \<Rightarrow> bytes \<Rightarrow> (error + bytes \<times> bytes) \<times> StampIssuer"
  ToSignDigest :: "bytes \<Rightarrow> bytes \<Rightarrow> bytes \<Rightarrow> bytes \<Rightarrow> error + bytes"
  Sign :: "bytes \<Rightarrow> error + bytes"
  RecoverBatchOwner :: "bytes \<Rightarrow> Stamp \<Rightarrow> error + bytes"
  item_String :: "StampItem \<Rightarrow> string"

text \<open>
  What a call of \<^verbatim>\<open>Stamp\<close> does to the locks, the store and the issuer, in order:
  \<^verbatim>\<open>st.issuer.mtx\<close>, the keyed lock \<^verbatim>\<open>StampLocker\<close> with its key, \<^verbatim>\<open>st.store.Get\<close>,
  \<^verbatim>\<open>st.store.Put\<close> and \<^verbatim>\<open>st.issuer.increment\<close>.
\<close>

datatype event =
    Lock_issuer_mtx
  | Unlock_issuer_mtx
  | Lock_StampLocker string
  | Unlock_StampLocker string
  | Store_Get
  | Store_Put
  | Issuer_increment

text \<open>The stamper with the state it works on, and the events of its calls so far.\<close>

record stamper =
  st_store :: store
  st_issuer :: StampIssuer
  trace :: "event list"

definition log_event :: "event \<Rightarrow> stamper \<Rightarrow> stamper" where
  "log_event ev st = st\<lparr>trace := trace st @ [ev]\<rparr>"

text \<open>The verb \<^verbatim>\<open>%x\<close> of \<^verbatim>\<open>fmt.Sprintf\<close> on a byte slice: two lower-case hex digits per byte.\<close>

definition hex_digit :: "nat \<Rightarrow> char" where
  "hex_digit n = ''0123456789abcdef'' ! n"

definition hex :: "bytes \<Rightarrow> string" where
  "hex bs = concat (map (\<lambda>b. [hex_digit (unat b div 16), hex_digit (unat b mod 16)]) bs)"

text \<open>
  The end of \<^verbatim>\<open>Stamp\<close>: \<^verbatim>\<open>ToSignDigest\<close>, \<^verbatim>\<open>st.signer.Sign\<close> and \<^verbatim>\<open>NewStamp\<close>.
\<close>

definition sign_item :: "postage \<Rightarrow> stamper \<Rightarrow> bytes \<Rightarrow> StampItem \<Rightarrow> error + Stamp" where
  "sign_item p st addr item =
     (case ToSignDigest p addr (data_BatchID (st_issuer st)) (item_BatchIndex item)
             (item_BatchTimestamp item) of
        Inl err \<Rightarrow> Inl err
      | Inr toSign \<Rightarrow>
          (case Sign p toSign of
             Inl err \<Rightarrow> Inl err
           | Inr sig \<Rightarrow>
               Inr (NewStamp (data_BatchID (st_issuer st)) (item_BatchIndex item)
                      (item_BatchTimestamp item) sig)))"

text \<open>
  \<^verbatim>\<open>Stamp\<close> from \<^verbatim>\<open>st.store.Get(item)\<close> to its \<^verbatim>\<open>return\<close>, that is, what runs while both
  locks are held.
\<close>

definition Stamp_locked :: "postage \<Rightarrow> stamper \<Rightarrow> bytes \<Rightarrow> StampItem \<Rightarrow> (error + Stamp) \<times> stamper" where
  "Stamp_locked p st0 addr item =
     (let st = log_event Store_Get st0
      in case store_Get (st_store st) item of
           Inl err \<Rightarrow>
             if errors_Is err ErrNotFound then
               (let bucket = ToBucket p (data_BucketDepth (st_issuer st)) addr;
                    item1 = item\<lparr>item_BatchIndex := indexToBytes p bucket 0,
                                 item_BatchTimestamp := unixTime p\<rparr>;
                    st1 = log_event Store_Put st
                in case store_Put (st_store st1) item1 of
                     Inl err \<Rightarrow> (Inl err, st1)
                   | Inr s' \<Rightarrow>
                       (sign_item p (st1\<lparr>st_store := s'\<rparr>) addr item1, st1\<lparr>st_store := s'\<rparr>))
             else (Inl (Errorf (''get stamp for '' @ item_String p item) err), st)
         | Inr item0 \<Rightarrow>
             (let (res, issuer') = increment p (st_issuer st) addr;
                  st1 = log_event Issuer_increment (st\<lparr>st_issuer := issuer'\<rparr>)
              in case res of
                   Inl err \<Rightarrow> (Inl err, st1)
                 | Inr (batchIndex, batchTimestamp) \<Rightarrow>
                     (let item1 = item0\<lparr>item_BatchIndex := batchIndex,
                                        item_BatchTimestamp := batchTimestamp\<rparr>;
                          st2 = log_event Store_Put st1
                      in case store_Put (st_store st2) item1 of
                           Inl err \<Rightarrow> (Inl err, st2)
                         | Inr s' \<Rightarrow>
                             (sign_item p (st2\<lparr>st_store := s'\<rparr>) addr item1,
                              st2\<lparr>st_store := s'\<rparr>))))"

text \<open>
  \<^verbatim>\<open>func (st *stamper) Stamp(addr swarm.Address) (*Stamp, error)\<close>. The two deferred
  unlocks run at the return, last deferred first.
\<close>

definition stamper_Stamp :: "postage \<Rightarrow> stamper \<Rightarrow> bytes \<Rightarrow> (error + Stamp) \<times> stamper" where
  "stamper_Stamp p st addr =
     (let st1 = log_event Lock_issuer_mtx st;
          item = \<lparr>item_BatchID = data_BatchID (st_issuer st1), item_chunkAddress = addr,
                  item_BatchIndex = [], item_BatchTimestamp = []\<rparr>;
          lockKey = ''postageIdStamp-'' @ hex (data_BatchID (st_issuer st1));
          st2 = log_event (Lock_StampLocker lockKey) st1;
          (res, st3) = Stamp_locked p st2 addr item
      in (res, log_event Unlock_issuer_mtx (log_event (Unlock_StampLocker lockKey) st3)))"


section \<open>The presigned stamper\<close>

record presignedStamper =
  ps_stamp :: Stamp
  ps_owner :: bytes

text \<open>
  \<^verbatim>\<open>func (st *presignedStamper) Stamp(addr swarm.Address) (*Stamp, error)\<close>;
  \<^verbatim>\<open>bytes.Equal\<close> is equality of the byte lists.
\<close>

definition presigned_Stamp :: "postage \<Rightarrow> presignedStamper \<Rightarrow> bytes \<Rightarrow> error + Stamp" where
  "presigned_Stamp p st addr =
     (case RecoverBatchOwner p addr (ps_stamp st) of
        Inl err \<Rightarrow> Inl err
      | Inr signerAddr \<Rightarrow>
          if \<not> (ps_owner st = signerAddr) then Inl ErrInvalidBatchSignature
          else Inr (ps_stamp st))"

section \<open>Concrete reserves for the examples\<close>

text \<open>
  A small world to run the sampler in: the index yields \<open>addrs\<close>, the chunk at address
  \<open>a\<close> has the data \<open>data a\<close> and a stamp of time 0, the keyed hash of \<open>d\<close> under
  \<open>anchor\<close> is \<open>anchor @ d\<close> (an injective function of the data), every stamp
  marshals and validates, and the hash behind \<^verbatim>\<open>cac.New\<close> is the identity.
\<close>

definition ex_item :: "bytes \<Rightarrow> bytes \<Rightarrow> shed_Item" where
  "ex_item a d =
     \<lparr>Address = a, Data = d, BatchID = [], Index = [], Timestamp = replicate 8 0, Sig = []\<rparr>"

definition ex_env :: "bytes list \<Rightarrow> (bytes \<Rightarrow> bytes) \<Rightarrow> (Chunk \<Rightarrow> bool) option \<Rightarrow> env" where
  "ex_env addrs data vc =
     \<lparr>pullIndex_Iterate = (\<lambda>r. addrs),
      get = (\<lambda>a. Inr (ex_item a (data a))),
      TrHasher = (\<lambda>anchor d. Inr (anchor @ d)),
      MarshalBinary =
        (\<lambda>s. Inr (stamp_BatchID s @ stamp_Index s @ stamp_Timestamp s @ stamp_Sig s)),
      validStamp = (\<lambda>c d. None),
      validChunkFn = vc,
      bmtHash = (\<lambda>d. d)\<rparr>"

definition ex_entry :: "bytes \<Rightarrow> bytes \<Rightarrow> bytes \<Rightarrow> SampleEntry" where
  "ex_entry anchor a d = \<lparr>TransformedAddress = anchor @ d, ChunkItem = ex_item a d\<rparr>"

definition ex_run :: "nat list \<Rightarrow> run" where
  "ex_run ks = \<lparr>sched = ks, interrupt = None\<rparr>"


text \<open>Three chunks with different data, iterated in the order 3, 1, 2.\<close>

definition small_env :: env where
  "small_env = ex_env [[3], [1], [2]] (\<lambda>a. a) (Some (\<lambda>c. True))"


text \<open>Two chunks whose validity the chunk validator refuses, and a world with a nil validator.\<close>

definition refused_env :: env where
  "refused_env = ex_env [[1], [2]] (\<lambda>a. a) (Some (\<lambda>c. False))"

definition nil_env :: env where
  "nil_env = ex_env [[1], [2]] (\<lambda>a. a) None"

section \<open>What the claims about the stamper speak about\<close>

text \<open>
  The item \<^verbatim>\<open>Stamp\<close> looks up, \<^verbatim>\<open>&StampItem{BatchID: st.issuer.data.BatchID, chunkAddress: addr}\<close>,
  and the key of the keyed lock, \<^verbatim>\<open>fmt.Sprintf("postageIdStamp-%x", st.issuer.data.BatchID)\<close>.
\<close>

definition stamp_probe :: "stamper \<Rightarrow> bytes \<Rightarrow> StampItem" where
  "stamp_probe st addr =
     \<lparr>item_BatchID = data_BatchID (st_issuer st), item_chunkAddress = addr,
      item_BatchIndex = [], item_BatchTimestamp = []\<rparr>"

definition lockKey_of :: "stamper \<Rightarrow> string" where
  "lockKey_of st = ''postageIdStamp-'' @ hex (data_BatchID (st_issuer st))"

section \<open>Concrete stampers for the examples\<close>

text \<open>
  A small world to stamp in: the bucket of an address is the top bits of its first byte,
  an index is written as the bucket and the count in four bytes each, the clock shows 9,
  \<open>increment\<close> counts up to four chunks per bucket and reports a full bucket after that,
  the digest is the concatenation of its four inputs, the signer writes its owner byte 5 in
  front of the digest, and recovery reads the owner byte back when the digest matches.
\<close>

definition ex_postage :: postage where
  "ex_postage =
     \<lparr>ToBucket = (\<lambda>depth addr. drop_bit (8 - unat depth) (ucast (hd addr))),
      indexToBytes = (\<lambda>bucket index. [0, 0, 0, ucast bucket, 0, 0, 0, ucast index]),
      unixTime = [0, 0, 0, 0, 0, 0, 0, 9],
      increment =
        (\<lambda>issuer addr.
           let b = drop_bit (8 - unat (data_BucketDepth issuer)) (ucast (hd addr));
               c = data_Buckets issuer b
           in if c = 4 then (Inl ErrBucketFull, issuer)
              else (Inr ([0, 0, 0, ucast b, 0, 0, 0, ucast c], [0, 0, 0, 0, 0, 0, 0, 9]),
                    issuer\<lparr>data_Buckets := (data_Buckets issuer)(b := c + 1)\<rparr>)),
      ToSignDigest = (\<lambda>addr batch index ts. Inr (addr @ batch @ index @ ts)),
      Sign = (\<lambda>digest. Inr (5 # digest)),
      RecoverBatchOwner =
        (\<lambda>addr s. case stamp_Sig s of
                     [] \<Rightarrow> Inl (ErrOther ''invalid signature'')
                   | signer # digest \<Rightarrow>
                       if digest = addr @ stamp_BatchID s @ stamp_Index s @ stamp_Timestamp s
                       then Inr [signer] else Inr [signer + 1]),
      item_String = (\<lambda>item. hex (item_BatchID item) @ hex (item_chunkAddress item))\<rparr>"

definition ex_store :: "(bytes \<times> bytes) list \<Rightarrow> store" where
  "ex_store keys =
     \<lparr>items = map_of (map (\<lambda>k. (k, ([0, 0, 0, 2, 0, 0, 0, 0], [0, 0, 0, 0, 0, 0, 0, 1]))) keys),
      get_fault = None, put_fault = None\<rparr>"

definition ex_stamper :: "store \<Rightarrow> nat \<Rightarrow> stamper" where
  "ex_stamper s n =
     \<lparr>st_store = s,
      st_issuer = \<lparr>data_BatchID = [11], data_BucketDepth = 2, data_Buckets = (\<lambda>b. of_nat n)\<rparr>,
      trace = []\<rparr>"

text \<open>A stamp signed by the owner 5 for the chunk address 128, with a declared owner.\<close>

definition ex_presigned :: "bytes \<Rightarrow> presignedStamper" where
  "ex_presigned owner =
     \<lparr>ps_stamp = NewStamp [11] [0, 0, 0, 2, 0, 0, 0, 0] [0, 0, 0, 0, 0, 0, 0, 9]
                   [5, 128, 11, 0, 0, 0, 2, 0, 0, 0, 0, 0, 0, 0, 0, 0, 0, 0, 9],
      ps_owner = owner\<rparr>"

section \<open>Properties of the byte order\<close>

lemma le_iff_less: "le a b \<longleftrightarrow> a < b"
  unfolding le_def
  by (induction a b rule: bytes_Compare.induct) auto

section \<open>The arithmetic of \<open>insert_sample\<close>\<close>

lemma insert_index_None:
  "insert_index (TransformedAddress x) xs = None \<Longrightarrow> place x xs = xs @ [x]"
  by (induction xs) (auto simp: le_iff_less split: if_splits)

lemma insert_index_Some:
  "insert_index (TransformedAddress x) xs = Some i \<Longrightarrow>
     i < length xs \<and> (take (Suc i) xs @ drop i xs)[i := x] = place x xs"
proof (induction xs arbitrary: i)
  case Nil
  then show ?case by simp
next
  case (Cons y ys)
  show ?case
  proof (cases "le (TransformedAddress x) (TransformedAddress y)")
    case True
    with Cons.prems show ?thesis by (simp add: le_iff_less)
  next
    case False
    with Cons.prems obtain j
      where j: "insert_index (TransformedAddress x) ys = Some j" "i = Suc j"
      by auto
    from Cons.IH[OF j(1)] j(2) False show ?thesis by (simp add: le_iff_less)
  qed
qed

lemma length_place: "length (place x xs) = Suc (length xs)"
  by (induction xs) auto

lemma set_place: "set (place x xs) = insert x (set xs)"
  by (induction xs) auto

lemma sorted_place:
  "sorted (map TransformedAddress xs) \<Longrightarrow> sorted (map TransformedAddress (place x xs))"
  by (induction xs) (auto simp: set_place)

lemma insert_sample_place:
  "length xs \<le> sampleSize \<Longrightarrow> insert_sample xs x = take sampleSize (place x xs)"
  by (cases "insert_index (TransformedAddress x) xs")
     (auto simp: insert_sample_def Let_def insert_index_None insert_index_Some length_place)

lemma take_Cons_take: "take n (y # take n ys) = take n (y # ys)"
  by (cases n) simp_all

lemma take_place: "take n (place x (take n xs)) = take n (place x xs)"
proof (induction xs arbitrary: n)
  case Nil
  then show ?case by simp
next
  case (Cons y ys)
  then show ?case by (cases n) (auto simp: take_Cons_take)
qed

lemma place_at_end:
  "\<forall>y\<in>set xs. \<not> TransformedAddress x < TransformedAddress y \<Longrightarrow> place x xs = xs @ [x]"
  by (induction xs) auto

lemma sorted_le_last:
  "sorted (map f xs) \<Longrightarrow> y \<in> set xs \<Longrightarrow> f y \<le> f (last xs)"
  by (induction xs) (auto split: if_splits)

lemma place_not_below_last:
  assumes "sorted (map TransformedAddress xs)" and "xs \<noteq> []"
    and "\<not> TransformedAddress x < TransformedAddress (last xs)"
  shows "place x xs = xs @ [x]"
proof (rule place_at_end, rule ballI)
  fix y
  assume "y \<in> set xs"
  with assms(1) have "TransformedAddress y \<le> TransformedAddress (last xs)"
    by (rule sorted_le_last)
  with assms(3) show "\<not> TransformedAddress x < TransformedAddress y" by auto
qed

lemma insort_place:
  "insort_key TransformedAddress y (place x zs) = place x (insort_key TransformedAddress y zs)"
  by (induction zs) auto

lemma sort_key_snoc:
  "sort_key TransformedAddress (ys @ [x]) = place x (sort_key TransformedAddress ys)"
  by (induction ys) (auto simp: insort_place)

lemma foldl_place_sort_key:
  "foldl (\<lambda>acc x. place x acc) [] xs = sort_key TransformedAddress xs"
  by (induction xs rule: rev_induct) (simp_all add: sort_key_snoc)

lemma take_foldl_place:
  "take n (foldl (\<lambda>acc x. place x acc) (take n zs) xs) = take n (foldl (\<lambda>acc x. place x acc) zs xs)"
proof (induction xs arbitrary: zs)
  case Nil
  then show ?case by simp
next
  case (Cons x xs)
  have "take n (foldl (\<lambda>acc x. place x acc) (take n zs) (x # xs))
      = take n (foldl (\<lambda>acc x. place x acc) (take n (place x (take n zs))) xs)"
    by (simp add: Cons.IH[of "place x (take n zs)"])
  also have "\<dots> = take n (foldl (\<lambda>acc x. place x acc) (take n (place x zs)) xs)"
    by (simp only: take_place)
  also have "\<dots> = take n (foldl (\<lambda>acc x. place x acc) (place x zs) xs)"
    by (rule Cons.IH)
  finally show ?case by simp
qed

section \<open>The order of arrival is a permutation\<close>

lemma mset_remove_nth:
  "i < length ys \<Longrightarrow> add_mset (ys ! i) (mset (take i ys @ drop (Suc i) ys)) = mset ys"
proof -
  assume i: "i < length ys"
  have "mset ys = mset (take i ys @ ys ! i # drop (Suc i) ys)"
    using i by (simp only: id_take_nth_drop[symmetric])
  then show ?thesis by simp
qed

lemma mset_deliver: "mset (deliver ks xs) = mset xs"
proof (induction ks xs rule: deliver.induct)
  case (3 k ks x xs)
  define i where "i = k mod length (x # xs)"
  have i: "i < length (x # xs)" unfolding i_def by simp
  have d: "deliver (k # ks) (x # xs) =
      (x # xs) ! i # deliver ks (take i (x # xs) @ drop (Suc i) (x # xs))"
    by (simp only: deliver.simps Let_def i_def)
  have "mset (deliver (k # ks) (x # xs)) =
      add_mset ((x # xs) ! i) (mset (take i (x # xs) @ drop (Suc i) (x # xs)))"
    by (simp only: d mset.simps 3[OF i_def])
  then show ?case by (simp only: mset_remove_nth[OF i])
qed simp_all

lemma set_deliver: "set (deliver ks xs) = set xs"
  by (metis mset_deliver set_mset_mset)

section \<open>Stage C computes the sixteen smallest, in a stable order\<close>

lemma stageC_step_eligible:
  assumes "validChunkFn e = Some f" and "sorted (map TransformedAddress xs)"
    and "length xs \<le> sampleSize"
  shows "stageC_step e xs x =
           Inr (if eligible e x then take sampleSize (place x xs) else xs)"
proof (cases "le (TransformedAddress x)
                (if length xs > 0 then TransformedAddress (last xs) else replicate 32 0)
              \<or> length xs < sampleSize")
  case True
  with assms(1,3) show ?thesis
    by (auto simp: stageC_step_def Let_def eligible_def stamp_ok_def chunk_of_def stamp_of_def
                   insert_sample_place
             split: sum.splits option.splits)
next
  case False
  then have full: "length xs = sampleSize" and ne: "xs \<noteq> []"
    and nl: "\<not> TransformedAddress x < TransformedAddress (last xs)"
    using assms(3) by (auto simp: sampleSize_def le_iff_less split: if_splits)
  have "take sampleSize (place x xs) = xs"
    using place_not_below_last[OF assms(2) ne nl] full by simp
  moreover have "stageC_step e xs x = Inr xs"
    using False by (auto simp: stageC_step_def Let_def)
  ultimately show ?thesis by simp
qed

lemma stageC_fold:
  assumes "validChunkFn e = Some f"
  shows "sorted (map TransformedAddress xs) \<Longrightarrow> length xs \<le> sampleSize \<Longrightarrow>
         stageC e xs es =
           Inr (take sampleSize (foldl (\<lambda>acc x. place x acc) xs (filter (eligible e) es)))"
proof (induction es arbitrary: xs)
  case Nil
  then show ?case by simp
next
  case (Cons x es)
  show ?case
  proof (cases "eligible e x")
    case True
    let ?xs' = "take sampleSize (place x xs)"
    have step: "stageC_step e xs x = Inr ?xs'"
      using stageC_step_eligible[OF assms Cons.prems] True by simp
    have "sorted (map TransformedAddress ?xs')"
      using sorted_place[OF Cons.prems(1)] by (simp add: take_map[symmetric] sorted_wrt_take)
    moreover have "length ?xs' \<le> sampleSize" by simp
    ultimately have "stageC e ?xs' es =
        Inr (take sampleSize (foldl (\<lambda>acc x. place x acc) ?xs' (filter (eligible e) es)))"
      by (rule Cons.IH)
    then show ?thesis using step True by (simp add: take_foldl_place)
  next
    case False
    have step: "stageC_step e xs x = Inr xs"
      using stageC_step_eligible[OF assms Cons.prems] False by simp
    show ?thesis using step False Cons.IH[OF Cons.prems] by simp
  qed
qed

lemma stageC_set:
  assumes "validChunkFn e = Some f"
  shows "stageC e [] es =
           Inr (take sampleSize (sort_key TransformedAddress (filter (eligible e) es)))"
  using stageC_fold[OF assms, of "[]" es] by (simp add: foldl_place_sort_key)

lemma stageC_step_nil:
  assumes "validChunkFn e = None"
  shows "stageC_step e [] x =
           (if stamp_ok e x then Inl (Panic ''nil func validChunkFn'') else Inr [])"
  using assms
  by (auto simp: stageC_step_def Let_def stamp_ok_def chunk_of_def stamp_of_def sampleSize_def
           split: sum.splits option.splits)

lemma stageC_nil:
  assumes "validChunkFn e = None"
  shows "stageC e [] es =
           (if \<exists>x\<in>set es. stamp_ok e x then Inl (Panic ''nil func validChunkFn'') else Inr [])"
  by (induction es) (simp_all add: stageC_step_nil[OF assms])



section \<open>From the buffer to the sample\<close>

lemma sampleContent_loop_eq: "sampleContent_loop acc xs = acc @ content_of xs"
  by (induction xs arbitrary: acc) (simp_all add: content_of_def)


lemma length_PutUint64: "length (LittleEndian_PutUint64 v) = 8"
  by (simp add: LittleEndian_PutUint64_def)

lemma cac_New_Inr:
  "cac_New e payload = Inr c \<Longrightarrow>
     c = NewChunk (bmtHash e (LittleEndian_PutUint64 (of_nat (length payload)) @ payload))
                  (LittleEndian_PutUint64 (of_nat (length payload)) @ payload)"
  by (auto simp: cac_New_def Let_def split: if_splits)

lemma cac_New_small:
  "length payload \<le> 4096 \<Longrightarrow>
   cac_New e payload =
     Inr (NewChunk (bmtHash e (LittleEndian_PutUint64 (of_nat (length payload)) @ payload))
                  (LittleEndian_PutUint64 (of_nat (length payload)) @ payload))"
  by (simp add: cac_New_def Let_def length_PutUint64)

lemma ReserveSample_complete:
  assumes "interrupt rn = None" and "workers_error e anchor radius ct = None"
  shows "ReserveSample e anchor radius ct rn =
           (case stageC e [] (deliver (sched rn) (entries_of e anchor radius ct)) of
              Inl err \<Rightarrow> Inl err
            | Inr xs \<Rightarrow> assemble e xs)"
  using assms
  by (auto simp: ReserveSample_def workers_error_def entries_of_def assemble_def Let_def
                 sampleContent_loop_eq
           split: prod.splits sum.splits option.splits error.splits)

lemma ReserveSample_Inr:
  assumes "ReserveSample e anchor radius ct rn = Inr s"
  shows "interrupt rn = None \<and> workers_error e anchor radius ct = None \<and>
         stageC e [] (deliver (sched rn) (entries_of e anchor radius ct)) = Inr (Items s) \<and>
         assemble e (Items s) = Inr s"
  using assms
  by (auto simp: ReserveSample_def workers_error_def entries_of_def assemble_def Let_def
                 sampleContent_loop_eq
           split: prod.splits sum.splits option.splits error.splits)















section \<open>The examples, evaluated\<close>

lemma BigEndian_zero: "BigEndian_Uint64 (replicate 8 0) = Some 0"
  by (simp add: BigEndian_Uint64_def numeral_eq_Suc)

lemma ex_stageB:
  "stageB (ex_env addrs data vc) anchor ct as = (map (\<lambda>a. ex_entry anchor a (data a)) as, None)"
  by (induction as)
     (simp_all add: stageB_item_def ex_env_def ex_item_def ex_entry_def BigEndian_zero)

lemma ex_entries:
  "entries_of (ex_env addrs data vc) anchor r ct = map (\<lambda>a. ex_entry anchor a (data a)) addrs"
  "workers_error (ex_env addrs data vc) anchor r ct = None"
  by (simp_all add: entries_of_def workers_error_def ex_stageB) (simp_all add: ex_env_def)

lemma ex_eligible:
  "eligible (ex_env addrs data (Some f)) x = f (chunk_of x)"
  "stamp_ok (ex_env addrs data vc) x"
  by (simp_all add: eligible_def stamp_ok_def ex_env_def)

lemmas ex_eval =
  ex_env_def ex_entry_def ex_item_def ex_run_def stageC_step_def insert_sample_def le_def
  sampleSize_def NewChunk_def NewStamp_def cac_New_def LittleEndian_PutUint64_def Let_def upt_rec



lemma small_run:
  "ReserveSample small_env [] 0 0 (ex_run [2, 0]) =
     Inr \<lparr>Items = [ex_entry [] [1] [1], ex_entry [] [2] [2], ex_entry [] [3] [3]],
          SampleContent = [1, 1, 2, 2, 3, 3],
          Hash = [6, 0, 0, 0, 0, 0, 0, 0, 1, 1, 2, 2, 3, 3]\<rparr>"
  by (simp add: ReserveSample_def small_env_def ex_stageB ex_run_def Let_def) (simp add: ex_eval)

section \<open>The claims\<close>









text \<open>
  Claim C4 (hash assembly). In every sample \<open>ReserveSample\<close> returns, the content is the
  concatenation over the items, in order, of chunk address and transformed address; the
  hash is the address of the chunk \<^verbatim>\<open>cac.New\<close> makes of that content, that is, the hash of
  the content with the eight little-endian bytes of its length in front; so the hash is a
  function of the items alone.
\<close>

theorem hash_assembly:
  assumes "ReserveSample e anchor radius ct rn = Inr s"
  shows "SampleContent s =
           concat (map (\<lambda>x. Address (ChunkItem x) @ TransformedAddress x) (Items s)) \<and>
         cac_New e (SampleContent s) =
           Inr (NewChunk (Hash s)
                  (LittleEndian_PutUint64 (of_nat (length (SampleContent s))) @ SampleContent s)) \<and>
         Hash s = bmtHash e (LittleEndian_PutUint64 (of_nat (length (content_of (Items s))))
                              @ content_of (Items s))"
proof -
  have a: "assemble e (Items s) = Inr s" using ReserveSample_Inr[OF assms] by simp
  then obtain c where c: "cac_New e (content_of (Items s)) = Inr c"
    and s: "\<lparr>Items = Items s, SampleContent = content_of (Items s), Hash = chunk_Address c\<rparr> = s"
    by (cases "cac_New e (content_of (Items s))") (auto simp: assemble_def)
  have sc: "SampleContent s = content_of (Items s)"
    using arg_cong[OF s, of SampleContent] by simp
  have h: "Hash s = chunk_Address c"
    using arg_cong[OF s, of Hash] by simp
  from cac_New_Inr[OF c] show ?thesis
    using c sc h by (simp add: content_of_def NewChunk_def)
qed

theorem hash_assembly_witness:
  "SampleContent \<lparr>Items = [ex_entry [] [1] [1], ex_entry [] [2] [2], ex_entry [] [3] [3]],
          SampleContent = [1, 1, 2, 2, 3, 3],
          Hash = [6, 0, 0, 0, 0, 0, 0, 0, 1, 1, 2, 2, 3, 3]\<rparr> =
     concat (map (\<lambda>x. Address (ChunkItem x) @ TransformedAddress x)
               [ex_entry [] [1] [1], ex_entry [] [2] [2], ex_entry [] [3] [3]]) \<and>
   cac_New small_env [1, 1, 2, 2, 3, 3] =
     Inr (NewChunk [6, 0, 0, 0, 0, 0, 0, 0, 1, 1, 2, 2, 3, 3]
            (LittleEndian_PutUint64 6 @ [1, 1, 2, 2, 3, 3]))"
  using hash_assembly[OF small_run] by (simp add: ex_entry_def ex_item_def)

text \<open>
  Claim C5 (empty reserve). If the run is not interrupted, no worker fails and every entry
  of the reserve is rejected (in particular, if the iteration yields no chunk),
  \<open>ReserveSample\<close> returns a sample, not an error: no items, empty content, and as hash the
  address \<^verbatim>\<open>cac.New\<close> gives the empty payload.
\<close>

theorem empty_reserve:
  assumes "interrupt rn = None" and "workers_error e anchor radius ct = None"
    and "\<forall>x\<in>set (entries_of e anchor radius ct). rejected e x"
  shows "cac_New e [] = Inr (NewChunk (bmtHash e (replicate 8 0)) (replicate 8 0)) \<and>
         ReserveSample e anchor radius ct rn =
           Inr \<lparr>Items = [], SampleContent = [], Hash = bmtHash e (replicate 8 0)\<rparr>"
proof -
  let ?D = "deliver (sched rn) (entries_of e anchor radius ct)"
  have z: "LittleEndian_PutUint64 0 = replicate 8 0"
    by (simp add: LittleEndian_PutUint64_def upt_rec numeral_eq_Suc)
  have c: "cac_New e [] = Inr (NewChunk (bmtHash e (replicate 8 0)) (replicate 8 0))"
    using cac_New_small[of "[]" e] by (simp add: z)
  have rej: "\<forall>x\<in>set ?D. rejected e x" using assms(3) by (simp add: set_deliver)
  have C: "stageC e [] ?D = Inr []"
  proof (cases "validChunkFn e")
    case None
    with rej have "\<forall>x\<in>set ?D. \<not> stamp_ok e x" by (simp add: rejected_def)
    then show ?thesis by (simp add: stageC_nil[OF None])
  next
    case (Some f)
    with rej have "filter (eligible e) ?D = []"
      by (auto simp: rejected_def eligible_def filter_empty_conv)
    then show ?thesis by (simp add: stageC_set[OF Some])
  qed
  show ?thesis
    by (simp add: ReserveSample_complete[OF assms(1,2)] C assemble_def content_of_def c
                  NewChunk_def)
qed

theorem empty_reserve_witness:
  "length (entries_of refused_env [] 0 0) = 2 \<and>
   ReserveSample refused_env [] 0 0 (ex_run [1]) =
     Inr \<lparr>Items = [], SampleContent = [], Hash = replicate 8 0\<rparr>"
proof -
  have h1: "interrupt (ex_run [1]) = None" by (simp add: ex_run_def)
  have h2: "workers_error refused_env [] 0 0 = None" by (simp add: refused_env_def ex_entries)
  have h3: "\<forall>x\<in>set (entries_of refused_env [] 0 0). rejected refused_env x"
    by (simp add: refused_env_def ex_entries rejected_def) (simp add: ex_env_def)
  have n: "length (entries_of refused_env [] 0 0) = 2"
    by (simp add: refused_env_def ex_entries)
  from empty_reserve[OF h1 h2 h3] n show ?thesis
    by (simp add: refused_env_def ex_env_def)
qed

text \<open>
  Claim C10 (the nil chunk validator). While \<^verbatim>\<open>validChunkFn\<close> is nil, Stage C panics as
  soon as it receives an entry whose stamp is accepted, and returns the empty buffer if
  there is none: the entries before the first accepted stamp leave the buffer empty, and the
  round of that entry is the call of the nil function. Once \<^verbatim>\<open>validChunkFn\<close> is set,
  Stage C always returns a buffer.
\<close>

theorem nil_validChunkFn:
  "(validChunkFn e = None \<longrightarrow>
      stageC e [] es =
        (if \<exists>x\<in>set es. stamp_ok e x then Inl (Panic ''nil func validChunkFn'') else Inr [])) \<and>
   (validChunkFn e = None \<and> (\<forall>y\<in>set pre. \<not> stamp_ok e y) \<and> stamp_ok e x \<longrightarrow>
      stageC e [] pre = Inr [] \<and> stageC_step e [] x = Inl (Panic ''nil func validChunkFn'')) \<and>
   (validChunkFn e \<noteq> None \<longrightarrow> (\<exists>xs. stageC e [] es = Inr xs))"
  using stageC_nil[of e] stageC_step_nil[of e] stageC_set[of e] by auto

theorem nil_validChunkFn_witness:
  "stageC nil_env [] [ex_entry [] [1] [1], ex_entry [] [2] [2]] =
     Inl (Panic ''nil func validChunkFn'') \<and>
   stageC nil_env [] [] = Inr [] \<and>
   stageC_step nil_env [] (ex_entry [] [1] [1]) = Inl (Panic ''nil func validChunkFn'') \<and>
   (\<exists>xs. stageC small_env [] [ex_entry [] [1] [1], ex_entry [] [2] [2]] = Inr xs)"
proof -
  have n: "validChunkFn nil_env = None" by (simp add: nil_env_def ex_env_def)
  have s: "validChunkFn small_env \<noteq> None" by (simp add: small_env_def ex_env_def)
  have ok: "stamp_ok nil_env (ex_entry [] [1] [1])" by (simp add: nil_env_def ex_eligible)
  show ?thesis
    using nil_validChunkFn[of nil_env "[ex_entry [] [1] [1], ex_entry [] [2] [2]]" "[]"
            "ex_entry [] [1] [1]"]
          nil_validChunkFn[of small_env "[ex_entry [] [1] [1], ex_entry [] [2] [2]]" "[]"
            "ex_entry [] [1] [1]"] n s ok
    by simp
qed

section \<open>The stamper, step by step\<close>

lemma log_event_simps:
  "st_store (log_event ev st) = st_store st"
  "st_issuer (log_event ev st) = st_issuer st"
  "trace (log_event ev st) = trace st @ [ev]"
  by (simp_all add: log_event_def)

lemma stamper_Stamp_unfold:
  "stamper_Stamp p st addr =
     (let r = Stamp_locked p (log_event (Lock_StampLocker (lockKey_of st))
                               (log_event Lock_issuer_mtx st)) addr (stamp_probe st addr)
      in (fst r, log_event Unlock_issuer_mtx (log_event (Unlock_StampLocker (lockKey_of st)) (snd r))))"
  by (simp add: stamper_Stamp_def Let_def split_beta lockKey_of_def stamp_probe_def log_event_simps)


text \<open>
  Claim C6 (stamp issuance). For every call of \<^verbatim>\<open>Stamp\<close> on an address:
  \<^item> if the lookup reports not-found and the store accepts the write, the stamper stores
    under (batch id, address) the index made of the bucket of the address and the sub-index
    0, with the time of the clock, and returns the stamp signed over exactly these; the
    issuer is left as it was;
  \<^item> if the lookup finds an item, the stamper calls \<^verbatim>\<open>increment\<close>; with the index and
    time it returns, the stored item is overwritten and the stamp signed over them, and the
    issuer is in the state \<^verbatim>\<open>increment\<close> left; an error of \<^verbatim>\<open>increment\<close> (the full
    bucket) is returned as it is and the store is not written;
  \<^item> any other error of the lookup is returned wrapped (\<^verbatim>\<open>get stamp for ...\<close>), with store
    and issuer untouched.
\<close>

theorem stamp_issuance:
  "(store_Get (st_store st) (stamp_probe st addr) = Inl err \<and> errors_Is err ErrNotFound \<and>
    put_fault (st_store st) = None \<and>
    ToSignDigest p addr (data_BatchID (st_issuer st))
      (indexToBytes p (ToBucket p (data_BucketDepth (st_issuer st)) addr) 0) (unixTime p) = Inr toSign \<and>
    Sign p toSign = Inr sig \<longrightarrow>
      fst (stamper_Stamp p st addr) =
        Inr (NewStamp (data_BatchID (st_issuer st))
               (indexToBytes p (ToBucket p (data_BucketDepth (st_issuer st)) addr) 0)
               (unixTime p) sig) \<and>
      items (st_store (snd (stamper_Stamp p st addr))) (data_BatchID (st_issuer st), addr) =
        Some (indexToBytes p (ToBucket p (data_BucketDepth (st_issuer st)) addr) 0, unixTime p) \<and>
      st_issuer (snd (stamper_Stamp p st addr)) = st_issuer st) \<and>
   (store_Get (st_store st) (stamp_probe st addr) = Inr found \<and>
    increment p (st_issuer st) addr = (Inr (batchIndex, batchTimestamp), issuer') \<and>
    put_fault (st_store st) = None \<and>
    ToSignDigest p addr (data_BatchID issuer') batchIndex batchTimestamp = Inr toSign \<and>
    Sign p toSign = Inr sig \<longrightarrow>
      fst (stamper_Stamp p st addr) =
        Inr (NewStamp (data_BatchID issuer') batchIndex batchTimestamp sig) \<and>
      items (st_store (snd (stamper_Stamp p st addr))) (data_BatchID (st_issuer st), addr) =
        Some (batchIndex, batchTimestamp) \<and>
      st_issuer (snd (stamper_Stamp p st addr)) = issuer') \<and>
   (store_Get (st_store st) (stamp_probe st addr) = Inr found \<and>
    increment p (st_issuer st) addr = (Inl err, issuer') \<longrightarrow>
      fst (stamper_Stamp p st addr) = Inl err \<and>
      st_store (snd (stamper_Stamp p st addr)) = st_store st) \<and>
   (store_Get (st_store st) (stamp_probe st addr) = Inl err \<and> \<not> errors_Is err ErrNotFound \<longrightarrow>
      fst (stamper_Stamp p st addr) =
        Inl (Errorf (''get stamp for '' @ item_String p (stamp_probe st addr)) err) \<and>
      st_store (snd (stamper_Stamp p st addr)) = st_store st \<and>
      st_issuer (snd (stamper_Stamp p st addr)) = st_issuer st)"
  by (auto simp: stamper_Stamp_unfold Stamp_locked_def Let_def log_event_simps sign_item_def
        store_Get_def store_Put_def stamp_probe_def
        split: option.splits sum.splits prod.splits)


theorem stamp_issuance_witness:
  "fst (stamper_Stamp ex_postage (ex_stamper (ex_store []) 0) [128]) =
     Inr (NewStamp [11] [0, 0, 0, 2, 0, 0, 0, 0] [0, 0, 0, 0, 0, 0, 0, 9]
            [5, 128, 11, 0, 0, 0, 2, 0, 0, 0, 0, 0, 0, 0, 0, 0, 0, 0, 9]) \<and>
   items (st_store (snd (stamper_Stamp ex_postage (ex_stamper (ex_store []) 0) [128]))) ([11], [128]) =
     Some ([0, 0, 0, 2, 0, 0, 0, 0], [0, 0, 0, 0, 0, 0, 0, 9]) \<and>
   fst (stamper_Stamp ex_postage (ex_stamper (ex_store [([11], [128])]) 3) [128]) =
     Inr (NewStamp [11] [0, 0, 0, 2, 0, 0, 0, 3] [0, 0, 0, 0, 0, 0, 0, 9]
            [5, 128, 11, 0, 0, 0, 2, 0, 0, 0, 3, 0, 0, 0, 0, 0, 0, 0, 9]) \<and>
   items (st_store (snd (stamper_Stamp ex_postage (ex_stamper (ex_store [([11], [128])]) 3) [128])))
       ([11], [128]) =
     Some ([0, 0, 0, 2, 0, 0, 0, 3], [0, 0, 0, 0, 0, 0, 0, 9]) \<and>
   fst (stamper_Stamp ex_postage (ex_stamper (ex_store [([11], [128])]) 4) [128]) =
     Inl ErrBucketFull \<and>
   fst (stamper_Stamp ex_postage
          (ex_stamper ((ex_store [])\<lparr>get_fault := Some (ErrOther ''disk'')\<rparr>) 0) [128]) =
     Inl (Errorf ''get stamp for 0b80'' (ErrOther ''disk''))"
proof -
  let ?fresh = "ex_stamper (ex_store []) 0"
  let ?again = "ex_stamper (ex_store [([11], [128])]) 3"
  let ?full = "ex_stamper (ex_store [([11], [128])]) 4"
  let ?fault = "ex_stamper ((ex_store [])\<lparr>get_fault := Some (ErrOther ''disk'')\<rparr>) 0"
  let ?found = "\<lparr>item_BatchID = [11], item_chunkAddress = [128],
                 item_BatchIndex = [0, 0, 0, 2, 0, 0, 0, 0],
                 item_BatchTimestamp = [0, 0, 0, 0, 0, 0, 0, 1]\<rparr>"
  have b: "drop_bit 6 (128 :: 32 word) = 2" by simp
  have a: "store_Get (st_store ?fresh) (stamp_probe ?fresh [128]) = Inl ErrNotFound \<and>
      errors_Is ErrNotFound ErrNotFound \<and> put_fault (st_store ?fresh) = None \<and>
      ToSignDigest ex_postage [128] (data_BatchID (st_issuer ?fresh))
        (indexToBytes ex_postage
           (ToBucket ex_postage (data_BucketDepth (st_issuer ?fresh)) [128]) 0)
        (unixTime ex_postage) = Inr [128, 11, 0, 0, 0, 2, 0, 0, 0, 0, 0, 0, 0, 0, 0, 0, 0, 9] \<and>
      Sign ex_postage [128, 11, 0, 0, 0, 2, 0, 0, 0, 0, 0, 0, 0, 0, 0, 0, 0, 9] =
        Inr [5, 128, 11, 0, 0, 0, 2, 0, 0, 0, 0, 0, 0, 0, 0, 0, 0, 0, 9]"
    by (simp add: ex_stamper_def ex_store_def ex_postage_def store_Get_def stamp_probe_def b)
  have c: "store_Get (st_store ?again) (stamp_probe ?again [128]) = Inr ?found \<and>
      increment ex_postage (st_issuer ?again) [128] =
        (Inr ([0, 0, 0, 2, 0, 0, 0, 3], [0, 0, 0, 0, 0, 0, 0, 9]),
         (st_issuer ?again)\<lparr>data_Buckets := (data_Buckets (st_issuer ?again))(2 := 4)\<rparr>) \<and>
      put_fault (st_store ?again) = None \<and>
      ToSignDigest ex_postage [128] [11] [0, 0, 0, 2, 0, 0, 0, 3] [0, 0, 0, 0, 0, 0, 0, 9] =
        Inr [128, 11, 0, 0, 0, 2, 0, 0, 0, 3, 0, 0, 0, 0, 0, 0, 0, 9] \<and>
      Sign ex_postage [128, 11, 0, 0, 0, 2, 0, 0, 0, 3, 0, 0, 0, 0, 0, 0, 0, 9] =
        Inr [5, 128, 11, 0, 0, 0, 2, 0, 0, 0, 3, 0, 0, 0, 0, 0, 0, 0, 9]"
    by (simp add: ex_stamper_def ex_store_def ex_postage_def store_Get_def stamp_probe_def b Let_def)
  have d: "store_Get (st_store ?full) (stamp_probe ?full [128]) = Inr ?found \<and>
      increment ex_postage (st_issuer ?full) [128] = (Inl ErrBucketFull, st_issuer ?full)"
    by (simp add: ex_stamper_def ex_store_def ex_postage_def store_Get_def stamp_probe_def b Let_def)
  have f: "store_Get (st_store ?fault) (stamp_probe ?fault [128]) = Inl (ErrOther ''disk'') \<and>
      \<not> errors_Is (ErrOther ''disk'') ErrNotFound"
    by (simp add: ex_stamper_def ex_store_def store_Get_def)
  have g: "item_String ex_postage (stamp_probe ?fault [128]) = ''0b80''"
    by (simp add: ex_postage_def stamp_probe_def ex_stamper_def hex_def hex_digit_def)
  have i: "data_BatchID (st_issuer ?fresh) = [11]" "data_BatchID (st_issuer ?again) = [11]"
    by (simp_all add: ex_stamper_def)
  have j: "indexToBytes ex_postage
           (ToBucket ex_postage (data_BucketDepth (st_issuer ?fresh)) [128]) 0 = [0, 0, 0, 2, 0, 0, 0, 0]"
      "unixTime ex_postage = [0, 0, 0, 0, 0, 0, 0, 9]"
    by (simp_all add: ex_stamper_def ex_postage_def b)
  show ?thesis
    using stamp_issuance[of ?fresh "[128]" ErrNotFound ex_postage
            "[128, 11, 0, 0, 0, 2, 0, 0, 0, 0, 0, 0, 0, 0, 0, 0, 0, 9]"
            "[5, 128, 11, 0, 0, 0, 2, 0, 0, 0, 0, 0, 0, 0, 0, 0, 0, 0, 9]"] a
          stamp_issuance[of ?again "[128]" _ ex_postage
            "[128, 11, 0, 0, 0, 2, 0, 0, 0, 3, 0, 0, 0, 0, 0, 0, 0, 9]"
            "[5, 128, 11, 0, 0, 0, 2, 0, 0, 0, 3, 0, 0, 0, 0, 0, 0, 0, 9]" ?found
            "[0, 0, 0, 2, 0, 0, 0, 3]" "[0, 0, 0, 0, 0, 0, 0, 9]"
            "(st_issuer ?again)\<lparr>data_Buckets := (data_Buckets (st_issuer ?again))(2 := 4)\<rparr>"] c
          stamp_issuance[of ?full "[128]" ErrBucketFull ex_postage _ _ ?found _ _ "st_issuer ?full"] d
          stamp_issuance[of ?fault "[128]" "ErrOther ''disk''" ex_postage] f g
    by (simp add: i j)
qed

text \<open>
  Claim C7 (presigned stamper). \<^verbatim>\<open>presignedStamper.Stamp\<close> returns a stamp exactly when the
  owner recovered from the provided stamp over the address is the declared owner, and the
  stamp returned is then the provided one; when an owner is recovered and differs from the
  declared one, the result is \<^verbatim>\<open>ErrInvalidBatchSignature\<close> and no stamp; an error of the
  recovery itself is returned as it is.
\<close>

theorem presigned_stamper:
  "(presigned_Stamp p st addr = Inr s \<longleftrightarrow>
      s = ps_stamp st \<and> RecoverBatchOwner p addr (ps_stamp st) = Inr (ps_owner st)) \<and>
   (RecoverBatchOwner p addr (ps_stamp st) = Inr signerAddr \<and> signerAddr \<noteq> ps_owner st \<longrightarrow>
      presigned_Stamp p st addr = Inl ErrInvalidBatchSignature) \<and>
   (RecoverBatchOwner p addr (ps_stamp st) = Inl err \<longrightarrow> presigned_Stamp p st addr = Inl err)"
  by (auto simp: presigned_Stamp_def split: sum.splits)

theorem presigned_stamper_witness:
  "presigned_Stamp ex_postage (ex_presigned [5]) [128] = Inr (ps_stamp (ex_presigned [5])) \<and>
   presigned_Stamp ex_postage (ex_presigned [6]) [128] = Inl ErrInvalidBatchSignature \<and>
   presigned_Stamp ex_postage
     ((ex_presigned [5])\<lparr>ps_stamp := NewStamp [11] [] [] []\<rparr>) [128] =
       Inl (ErrOther ''invalid signature'')"
proof -
  have a: "RecoverBatchOwner ex_postage [128] (ps_stamp (ex_presigned [5])) = Inr [5]"
          "RecoverBatchOwner ex_postage [128] (ps_stamp (ex_presigned [6])) = Inr [5]"
          "RecoverBatchOwner ex_postage [128]
             (ps_stamp ((ex_presigned [5])\<lparr>ps_stamp := NewStamp [11] [] [] []\<rparr>)) =
           Inl (ErrOther ''invalid signature'')"
    by (simp_all add: ex_postage_def ex_presigned_def NewStamp_def)
  have o: "ps_owner (ex_presigned [5]) = [5]" "ps_owner (ex_presigned [6]) = [6]"
    by (simp_all add: ex_presigned_def)
  show ?thesis
    using presigned_stamper[of ex_postage "ex_presigned [5]" "[128]" "ps_stamp (ex_presigned [5])"]
          presigned_stamper[of ex_postage "ex_presigned [6]" "[128]" _ "[5]"]
          presigned_stamper[of ex_postage "(ex_presigned [5])\<lparr>ps_stamp := NewStamp [11] [] [] []\<rparr>"
             "[128]" _ _ "ErrOther ''invalid signature''"]
          a o
    by simp
qed







end
